theory Spec2Isabelle
  imports
    Complex_Main
    "HOL-Library.Log_Nat"
    "HOL-Library.Multiset"
begin

section \<open>Values, records and errors\<close>

text \<open>
  The two source files, \<^verbatim>\<open>test-swarm/file3.py\<close> (the function \<^verbatim>\<open>process_data\<close>) and
  \<^verbatim>\<open>tests/fixtures/sample-code.py\<close> (the class \<^verbatim>\<open>DataProcessor\<close>), reduce a list of
  dictionaries to the three numbers count, total and average.

  A \<^verbatim>\<open>float\<close> is an IEEE 754 double: a finite double is represented by the rational
  number that it denotes (the sign of a zero is not represented), and there are the two
  infinities and NaN.
\<close>

datatype pyfloat = Finite rat | PosInf | NegInf | NaN

text \<open>
  A record is a Python \<^verbatim>\<open>dict\<close> with string keys: a map from \<open>string\<close>. The value stored
  under a key is an \<^verbatim>\<open>int\<close> (unbounded, hence \<open>int\<close>), a \<^verbatim>\<open>float\<close>, or a \<^verbatim>\<open>str\<close>, which
  stands for the values that the arithmetic of numbers rejects. A summary is such a
  dictionary too.
\<close>

datatype pyval = PyInt int | PyFloat pyfloat | PyStr string

type_synonym pyrecord = "string \<rightharpoonup> pyval"

type_synonym summary = "string \<rightharpoonup> pyval"

text \<open>The exceptions that the expressions of the two files can raise.\<close>

datatype error = TypeError | ZeroDivisionError | OverflowError

section \<open>The built-in operations used by the source\<close>

text \<open>
  An exception ends the evaluation of the enclosing function: \<open>and_then x f\<close> passes the
  value of \<open>x\<close> to \<open>f\<close>, and is the exception when \<open>x\<close> raised one.
\<close>

fun and_then :: "error + 'a \<Rightarrow> ('a \<Rightarrow> error + 'b) \<Rightarrow> error + 'b" where
  "and_then (Inl e) f = Inl e"
| "and_then (Inr x) f = f x"

text \<open>\<^verbatim>\<open>d.get(k, dflt)\<close>: the value under \<open>k\<close>, or \<open>dflt\<close> when the key is absent.\<close>

definition dict_get :: "pyrecord \<Rightarrow> string \<Rightarrow> pyval \<Rightarrow> pyval" where
  "dict_get d k dflt = (case d k of None \<Rightarrow> dflt | Some v \<Rightarrow> v)"

subsection \<open>Rounding to a double\<close>

text \<open>
  A double has 53 significant bits and its least exponent is \<open>- 1074\<close>; an exact result
  is rounded to the nearest double, ties to even.
\<close>

definition round_half_even :: "rat \<Rightarrow> int" where
  "round_half_even x =
     (let f = \<lfloor>x\<rfloor>; d = x - of_int f
      in if d < 1 / 2 then f
         else if 1 / 2 < d then f + 1
         else if even f then f else f + 1)"

text \<open>\<open>floor_log2 n d\<close> is the integer \<open>e\<close> with \<open>2 ^ e \<le> n / d < 2 ^ (e + 1)\<close>, for positive \<open>n\<close>, \<open>d\<close>.\<close>

definition floor_log2 :: "int \<Rightarrow> int \<Rightarrow> int" where
  "floor_log2 n d =
     (let k = bitlen n - bitlen d
      in if (2::rat) powi k \<le> of_int n / of_int d then k else k - 1)"

text \<open>
  \<^verbatim>\<open>a / b\<close> on two \<^verbatim>\<open>int\<close>s is true division: the double nearest to the exact quotient,
  \<^verbatim>\<open>ZeroDivisionError\<close> when \<open>b = 0\<close> and \<^verbatim>\<open>OverflowError\<close> when the rounded quotient does
  not fit a double.
\<close>

definition py_truediv :: "int \<Rightarrow> int \<Rightarrow> error + rat" where
  "py_truediv a b =
     (if b = 0 then Inl ZeroDivisionError
      else if a = 0 then Inr 0
      else
        let q = of_int a / of_int b :: rat;
            e = floor_log2 \<bar>a\<bar> \<bar>b\<bar>;
            sh = max (e - 52) (- 1074);
            m = round_half_even (\<bar>q\<bar> / 2 powi sh);
            r = of_int m * 2 powi sh
        in if 2 ^ 1024 \<le> r then Inl OverflowError
           else Inr (sgn q * r))"

text \<open>
  The same rounding of any rational number, with no bound on the exponent above: the
  operations below turn a result of \<open>2 ^ 1024\<close> or more into an infinity or an exception.
\<close>

definition nearest_double :: "rat \<Rightarrow> rat" where
  "nearest_double q =
     (if q = 0 then 0
      else
        let (n, d) = quotient_of q;
            e = floor_log2 \<bar>n\<bar> d;
            sh = max (e - 52) (- 1074);
            m = round_half_even (\<bar>q\<bar> / 2 powi sh)
        in sgn q * (of_int m * 2 powi sh))"

text \<open>The result of an IEEE operation whose exact value is \<open>q\<close>: overflow gives an infinity.\<close>

definition round_to_double :: "rat \<Rightarrow> pyfloat" where
  "round_to_double q =
     (let r = nearest_double q
      in if 2 ^ 1024 \<le> r then PosInf
         else if r \<le> - (2 ^ 1024) then NegInf
         else Finite r)"

text \<open>
  The conversion of an \<^verbatim>\<open>int\<close> operand to \<^verbatim>\<open>float\<close>, which \<^verbatim>\<open>+\<close> and \<^verbatim>\<open>/\<close> perform when
  the other operand is a \<^verbatim>\<open>float\<close>: \<^verbatim>\<open>OverflowError\<close> when the \<^verbatim>\<open>int\<close> is too large.
\<close>

definition float_of_int :: "int \<Rightarrow> error + pyfloat" where
  "float_of_int n =
     (let r = nearest_double (of_int n)
      in if 2 ^ 1024 \<le> \<bar>r\<bar> then Inl OverflowError else Inr (Finite r))"

text \<open>\<^verbatim>\<open>x + y\<close> on two \<^verbatim>\<open>float\<close>s.\<close>

fun fadd :: "pyfloat \<Rightarrow> pyfloat \<Rightarrow> pyfloat" where
  "fadd NaN y = NaN"
| "fadd x NaN = NaN"
| "fadd PosInf NegInf = NaN"
| "fadd NegInf PosInf = NaN"
| "fadd PosInf y = PosInf"
| "fadd x PosInf = PosInf"
| "fadd NegInf y = NegInf"
| "fadd x NegInf = NegInf"
| "fadd (Finite x) (Finite y) = round_to_double (x + y)"

text \<open>\<^verbatim>\<open>x / y\<close> on two \<^verbatim>\<open>float\<close>s: a zero divisor raises, all else is the IEEE quotient.\<close>

fun fdiv :: "pyfloat \<Rightarrow> pyfloat \<Rightarrow> error + pyfloat" where
  "fdiv x (Finite y) =
     (if y = 0 then Inl ZeroDivisionError
      else Inr (case x of
                  Finite a \<Rightarrow> round_to_double (a / y)
                | PosInf \<Rightarrow> if 0 < y then PosInf else NegInf
                | NegInf \<Rightarrow> if 0 < y then NegInf else PosInf
                | NaN \<Rightarrow> NaN))"
| "fdiv (Finite a) PosInf = Inr (Finite 0)"
| "fdiv (Finite a) NegInf = Inr (Finite 0)"
| "fdiv x y = Inr NaN"

text \<open>
  \<^verbatim>\<open>x + y\<close> on the values of a record: the sum of two \<^verbatim>\<open>int\<close>s is exact, a \<^verbatim>\<open>float\<close>
  operand makes the other one a \<^verbatim>\<open>float\<close>, and a number and a \<^verbatim>\<open>str\<close> do not add.
\<close>

fun py_add :: "pyval \<Rightarrow> pyval \<Rightarrow> error + pyval" where
  "py_add (PyInt a) (PyInt b) = Inr (PyInt (a + b))"
| "py_add (PyInt a) (PyFloat y) = and_then (float_of_int a) (\<lambda>x. Inr (PyFloat (fadd x y)))"
| "py_add (PyFloat x) (PyInt b) = and_then (float_of_int b) (\<lambda>y. Inr (PyFloat (fadd x y)))"
| "py_add (PyFloat x) (PyFloat y) = Inr (PyFloat (fadd x y))"
| "py_add (PyStr s) (PyStr t) = Inr (PyStr (s @ t))"
| "py_add x y = Inl TypeError"

text \<open>\<^verbatim>\<open>x / y\<close> on the values of a record.\<close>

fun py_div :: "pyval \<Rightarrow> pyval \<Rightarrow> error + pyval" where
  "py_div (PyInt a) (PyInt b) = and_then (py_truediv a b) (\<lambda>x. Inr (PyFloat (Finite x)))"
| "py_div (PyInt a) (PyFloat y) =
     and_then (float_of_int a) (\<lambda>x. and_then (fdiv x y) (\<lambda>z. Inr (PyFloat z)))"
| "py_div (PyFloat x) (PyInt b) =
     and_then (float_of_int b) (\<lambda>y. and_then (fdiv x y) (\<lambda>z. Inr (PyFloat z)))"
| "py_div (PyFloat x) (PyFloat y) = and_then (fdiv x y) (\<lambda>z. Inr (PyFloat z))"
| "py_div x y = Inl TypeError"

text \<open>
  \<^verbatim>\<open>sum(vs)\<close>: the loop \<^verbatim>\<open>acc = 0; for v in vs: acc = acc + v\<close>, from left to right,
  each step being the addition \<^verbatim>\<open>+\<close> above (the \<^verbatim>\<open>sum\<close> of CPython up to 3.11; later
  versions compensate the rounding errors of consecutive \<^verbatim>\<open>float\<close> items).
\<close>

fun sum_from :: "pyval \<Rightarrow> pyval list \<Rightarrow> error + pyval" where
  "sum_from acc [] = Inr acc"
| "sum_from acc (v # vs) = and_then (py_add acc v) (\<lambda>acc'. sum_from acc' vs)"

definition py_sum :: "pyval list \<Rightarrow> error + pyval" where
  "py_sum vs = sum_from (PyInt 0) vs"

section \<open>The function \<^verbatim>\<open>process_data\<close>\<close>

text \<open>
  \<^verbatim>\<open>
  def process_data(items: List[Dict]) -> Dict:
      total = sum(item.get('value', 0) for item in items)
      count = len(items)
      average = total / count if count > 0 else 0
      return {'total': total, 'count': count, 'average': average}
  \<close>
  The model returns the result (an exception is \<open>Inl\<close>) together with the list \<open>items\<close>
  as the caller finds it after the call.
\<close>

definition process_data :: "pyrecord list \<Rightarrow> (error + summary) \<times> pyrecord list" where
  "process_data items =
     (and_then (py_sum (map (\<lambda>item. dict_get item ''value'' (PyInt 0)) items)) (\<lambda>total.
      let count = int (length items) in
      and_then (if 0 < count then py_div total (PyInt count) else Inr (PyInt 0)) (\<lambda>average.
      Inr [''total'' \<mapsto> total, ''count'' \<mapsto> PyInt count, ''average'' \<mapsto> average])),
      items)"

section \<open>The class \<^verbatim>\<open>DataProcessor\<close>\<close>

text \<open>
  \<^verbatim>\<open>
  class DataProcessor:
      def __init__(self):
          self.data = []
      def add_item(self, item: Dict) -> None:
          self.data.append(item)
      def get_summary(self) -> Dict:
          if not self.data:
              return {"count": 0, "total": 0, "average": 0}
          values = [item.get("value", 0) for item in self.data]
          total = sum(values)
          count = len(values)
          return {"count": count, "total": total,
                  "average": total / count if count > 0 else 0}
  \<close>
  The object is a record with the field \<open>data\<close>; a method takes the object and returns
  its result and the object after the call.
\<close>

record DataProcessor =
  data :: "pyrecord list"

definition DataProcessor_init :: DataProcessor where
  "DataProcessor_init = \<lparr>data = []\<rparr>"

definition add_item :: "pyrecord \<Rightarrow> DataProcessor \<Rightarrow> unit \<times> DataProcessor" where
  "add_item item self = ((), self\<lparr>data := data self @ [item]\<rparr>)"

definition get_summary :: "DataProcessor \<Rightarrow> (error + summary) \<times> DataProcessor" where
  "get_summary self =
     (if data self = [] then
        (Inr [''count'' \<mapsto> PyInt 0, ''total'' \<mapsto> PyInt 0, ''average'' \<mapsto> PyInt 0], self)
      else
        let values = map (\<lambda>item. dict_get item ''value'' (PyInt 0)) (data self) in
        (and_then (py_sum values) (\<lambda>total.
         let count = int (length values) in
         and_then (if 0 < count then py_div total (PyInt count) else Inr (PyInt 0)) (\<lambda>average.
         Inr [''count'' \<mapsto> PyInt count, ''total'' \<mapsto> total, ''average'' \<mapsto> average])),
         self))"

text \<open>
  A client of the class calls its two methods in some order; \<open>exec\<close> runs such a
  sequence of calls and returns the object after the last one.
\<close>

datatype call = AddItem pyrecord | GetSummary

fun step :: "DataProcessor \<Rightarrow> call \<Rightarrow> DataProcessor" where
  "step self (AddItem item) = snd (add_item item self)"
| "step self GetSummary = snd (get_summary self)"

definition exec :: "call list \<Rightarrow> DataProcessor \<Rightarrow> DataProcessor" where
  "exec cs self = foldl step self cs"

text \<open>The records that a sequence of calls passes to \<^verbatim>\<open>add_item\<close>, in the order of the calls.\<close>

fun added :: "call list \<Rightarrow> pyrecord list" where
  "added [] = []"
| "added (AddItem item # cs) = item # added cs"
| "added (GetSummary # cs) = added cs"

section \<open>The function as a relation\<close>

text \<open>
  The same function as a relation between a call and the ways it can end, one rule for
  each way through the body: \<open>sum_loop acc vs r\<close> is a run of the loop of \<^verbatim>\<open>sum\<close> from the
  accumulator \<open>acc\<close> over the values \<open>vs\<close>, and \<open>process_data_run items out\<close> is a run of
  the call, where \<open>out\<close> is the result or exception and the list \<open>items\<close> after the call.
\<close>

inductive sum_loop :: "pyval \<Rightarrow> pyval list \<Rightarrow> error + pyval \<Rightarrow> bool" where
  sum_done: "sum_loop acc [] (Inr acc)"
| sum_next: "py_add acc v = Inr acc' \<Longrightarrow> sum_loop acc' vs r \<Longrightarrow> sum_loop acc (v # vs) r"
| sum_raise: "py_add acc v = Inl e \<Longrightarrow> sum_loop acc (v # vs) (Inl e)"

inductive process_data_run ::
    "pyrecord list \<Rightarrow> (error + summary) \<times> pyrecord list \<Rightarrow> bool" where
  run_sum_raises:
    "sum_loop (PyInt 0) (map (\<lambda>item. dict_get item ''value'' (PyInt 0)) items) (Inl e)
     \<Longrightarrow> process_data_run items (Inl e, items)"
| run_no_items:
    "sum_loop (PyInt 0) (map (\<lambda>item. dict_get item ''value'' (PyInt 0)) items) (Inr tot)
     \<Longrightarrow> cnt = int (length items) \<Longrightarrow> \<not> 0 < cnt
     \<Longrightarrow> process_data_run items
          (Inr [''total'' \<mapsto> tot, ''count'' \<mapsto> PyInt cnt, ''average'' \<mapsto> PyInt 0], items)"
| run_division_raises:
    "sum_loop (PyInt 0) (map (\<lambda>item. dict_get item ''value'' (PyInt 0)) items) (Inr tot)
     \<Longrightarrow> cnt = int (length items) \<Longrightarrow> 0 < cnt
     \<Longrightarrow> py_div tot (PyInt cnt) = Inl e
     \<Longrightarrow> process_data_run items (Inl e, items)"
| run_returns:
    "sum_loop (PyInt 0) (map (\<lambda>item. dict_get item ''value'' (PyInt 0)) items) (Inr tot)
     \<Longrightarrow> cnt = int (length items) \<Longrightarrow> 0 < cnt
     \<Longrightarrow> py_div tot (PyInt cnt) = Inr avg
     \<Longrightarrow> process_data_run items
          (Inr [''total'' \<mapsto> tot, ''count'' \<mapsto> PyInt cnt, ''average'' \<mapsto> avg], items)"

section \<open>The numbers of the specification\<close>

text \<open>
  The specification sums \<open>extract r\<close> over the records, where \<open>extract\<close> is the number
  under the key \<^verbatim>\<open>value\<close> and \<open>0\<close> when the key is missing. \<open>number_of v\<close> is the number
  that a value denotes, if it denotes one; \<open>exact_value r\<close> is the extracted number of a
  record as a rational, and \<open>extract_value r\<close> as an integer when it is an \<^verbatim>\<open>int\<close>.
  \<open>int_valued r\<close> says that the record holds an \<^verbatim>\<open>int\<close> under \<^verbatim>\<open>value\<close> or lacks the key,
  \<open>float_free r\<close> that it holds no \<^verbatim>\<open>float\<close> there.
\<close>

fun number_of :: "pyval \<Rightarrow> rat option" where
  "number_of (PyInt n) = Some (of_int n)"
| "number_of (PyFloat (Finite x)) = Some x"
| "number_of v = None"

definition exact_value :: "pyrecord \<Rightarrow> rat" where
  "exact_value r =
     (case r ''value'' of
        None \<Rightarrow> 0
      | Some v \<Rightarrow> (case number_of v of None \<Rightarrow> 0 | Some x \<Rightarrow> x))"

fun int_of :: "pyval \<Rightarrow> int" where
  "int_of (PyInt n) = n"
| "int_of v = 0"

definition extract_value :: "pyrecord \<Rightarrow> int" where
  "extract_value r = (case r ''value'' of None \<Rightarrow> 0 | Some v \<Rightarrow> int_of v)"

fun is_int :: "pyval \<Rightarrow> bool" where
  "is_int (PyInt n) = True"
| "is_int v = False"

fun is_float :: "pyval \<Rightarrow> bool" where
  "is_float (PyFloat x) = True"
| "is_float v = False"

definition int_valued :: "pyrecord \<Rightarrow> bool" where
  "int_valued r = (case r ''value'' of None \<Rightarrow> True | Some v \<Rightarrow> is_int v)"

definition float_free :: "pyrecord \<Rightarrow> bool" where
  "float_free r = (case r ''value'' of None \<Rightarrow> True | Some v \<Rightarrow> \<not> is_float v)"

text \<open>The number in the \<^verbatim>\<open>total\<close> field of the summary that a call returned.\<close>

definition total_of :: "error + summary \<Rightarrow> rat option" where
  "total_of res =
     (case res of
        Inl e \<Rightarrow> None
      | Inr s \<Rightarrow> (case s ''total'' of None \<Rightarrow> None | Some t \<Rightarrow> number_of t))"

section \<open>The sum\<close>

lemma sum_from_exact:
  assumes "list_all (\<lambda>v. \<not> is_float v) vs"
  shows "sum_from (PyInt acc) vs =
     (if list_all is_int vs then Inr (PyInt (acc + sum_list (map int_of vs)))
      else Inl TypeError)"
  using assms
proof (induction vs arbitrary: acc)
  case Nil
  show ?case by simp
next
  case (Cons v vs)
  then show ?case by (cases v) (simp_all add: add.assoc)
qed

lemma is_int_dict_get [simp]:
  "is_int (dict_get r ''value'' (PyInt 0)) = int_valued r"
  by (simp add: dict_get_def int_valued_def split: option.split)

lemma is_float_dict_get [simp]:
  "is_float (dict_get r ''value'' (PyInt 0)) = (\<not> float_free r)"
  by (simp add: dict_get_def float_free_def split: option.split)

lemma int_of_dict_get [simp]:
  "int_of (dict_get r ''value'' (PyInt 0)) = extract_value r"
  by (simp add: dict_get_def extract_value_def split: option.split)

lemma int_valued_float_free: "int_valued r \<Longrightarrow> float_free r"
  by (auto simp: int_valued_def float_free_def split: option.splits elim: is_int.elims)

lemma exact_value_int: "int_valued r \<Longrightarrow> exact_value r = of_int (extract_value r)"
  by (auto simp: int_valued_def exact_value_def extract_value_def
      split: option.splits elim!: is_int.elims)

lemma sum_exact_value_int:
  "list_all int_valued R \<Longrightarrow>
     sum_list (map exact_value R) = of_int (sum_list (map extract_value R))"
  by (induction R) (simp_all add: exact_value_int)

lemma py_sum_values:
  assumes "list_all float_free items"
  shows "py_sum (map (\<lambda>item. dict_get item ''value'' (PyInt 0)) items) =
     (if list_all int_valued items then Inr (PyInt (sum_list (map extract_value items)))
      else Inl TypeError)"
proof -
  have "list_all (\<lambda>v. \<not> is_float v) (map (\<lambda>item. dict_get item ''value'' (PyInt 0)) items)"
    using assms by (simp add: list_all_iff)
  then show ?thesis
    by (simp add: py_sum_def sum_from_exact list_all_iff comp_def)
qed

lemma py_sum_values_int:
  assumes "list_all int_valued items"
  shows "py_sum (map (\<lambda>item. dict_get item ''value'' (PyInt 0)) items) =
     Inr (PyInt (sum_list (map extract_value items)))"
proof -
  have "list_all float_free items"
    using assms by (auto simp: list_all_iff intro: int_valued_float_free)
  then show ?thesis using assms by (simp add: py_sum_values)
qed

section \<open>The relation and the function\<close>

lemma sum_loop_sum_from: "sum_loop acc vs (sum_from acc vs)"
proof (induction vs arbitrary: acc)
  case Nil
  show ?case by (simp add: sum_done)
next
  case (Cons v vs)
  show ?case
  proof (cases "py_add acc v")
    case (Inl e)
    then show ?thesis by (simp add: sum_raise)
  next
    case (Inr acc')
    with Cons.IH [of acc'] show ?thesis by (simp add: sum_next)
  qed
qed

lemma sum_loop_deterministic:
  assumes "sum_loop acc vs r" and "sum_loop acc vs r'"
  shows "r' = r"
  using assms
proof (induction arbitrary: r' rule: sum_loop.induct)
  case (sum_done acc)
  then show ?case by (auto elim: sum_loop.cases)
next
  case (sum_next acc v acc' vs r)
  from sum_next.prems sum_next.hyps(1) have "sum_loop acc' vs r'"
    by (auto elim: sum_loop.cases)
  then show ?case by (rule sum_next.IH)
next
  case (sum_raise acc v e vs)
  then show ?case by (auto elim: sum_loop.cases)
qed

lemma process_data_run_deterministic:
  assumes "process_data_run items out" and "process_data_run items out'"
  shows "out' = out"
  using assms
  by (auto elim!: process_data_run.cases dest: sum_loop_deterministic)

lemma process_data_run_process_data: "process_data_run items (process_data items)"
proof (cases "py_sum (map (\<lambda>item. dict_get item ''value'' (PyInt 0)) items)")
  case (Inl e)
  then have "sum_loop (PyInt 0) (map (\<lambda>item. dict_get item ''value'' (PyInt 0)) items) (Inl e)"
    using sum_loop_sum_from [of "PyInt 0" "map (\<lambda>item. dict_get item ''value'' (PyInt 0)) items"]
    by (simp add: py_sum_def)
  then have "process_data_run items (Inl e, items)" by (rule run_sum_raises)
  then show ?thesis using Inl by (simp add: process_data_def)
next
  case (Inr total)
  then have loop:
    "sum_loop (PyInt 0) (map (\<lambda>item. dict_get item ''value'' (PyInt 0)) items) (Inr total)"
    using sum_loop_sum_from [of "PyInt 0" "map (\<lambda>item. dict_get item ''value'' (PyInt 0)) items"]
    by (simp add: py_sum_def)
  show ?thesis
  proof (cases "0 < int (length items)")
    case False
    from run_no_items [OF loop refl False] show ?thesis
      using Inr False by (simp add: process_data_def)
  next
    case True
    show ?thesis
    proof (cases "py_div total (PyInt (int (length items)))")
      case (Inl e)
      from run_division_raises [OF loop refl True Inl] show ?thesis
        using Inr True Inl by (simp add: process_data_def)
    next
      case (Inr average)
      from run_returns [OF loop refl True Inr] show ?thesis
        using \<open>py_sum _ = Inr total\<close> True Inr by (simp add: process_data_def)
    qed
  qed
qed

section \<open>True division\<close>

text \<open>Powers of two enclose an integer given its bit length, and a quotient given \<open>floor_log2\<close>.\<close>

lemma two_powi_bitlen:
  assumes "0 < n"
  shows "(2::rat) powi (bitlen n - 1) \<le> of_int n" and "of_int n < (2::rat) powi bitlen n"
proof -
  from bitlen_bounds [OF assms]
  have lo: "2 ^ nat (bitlen n - 1) \<le> n" and hi: "n < 2 ^ nat (bitlen n)" by simp_all
  have b: "1 \<le> bitlen n" using assms by (simp add: bitlen_alt_def)
  have "(of_int (2 ^ nat (bitlen n - 1)) :: rat) \<le> of_int n"
    using lo by (simp only: of_int_le_iff)
  then show "(2::rat) powi (bitlen n - 1) \<le> of_int n"
    using b by (simp add: power_int_def)
  have "(of_int n :: rat) < of_int (2 ^ nat (bitlen n))"
    using hi by (simp only: of_int_less_iff)
  then show "of_int n < (2::rat) powi bitlen n"
    using b by (simp add: power_int_def)
qed

lemma floor_log2_bounds:
  assumes n: "0 < n" and d: "0 < d"
  shows "(2::rat) powi floor_log2 n d \<le> of_int n / of_int d"
    and "of_int n / of_int d < (2::rat) powi (floor_log2 n d + 1)"
proof -
  define k where "k = bitlen n - bitlen d"
  define q :: rat where "q = of_int n / of_int d"
  have dpos: "(0::rat) < of_int d" using d by simp
  have lo: "2 powi (k - 1) < q"
  proof -
    have "(2::rat) powi (k - 1) * of_int d < 2 powi (k - 1) * 2 powi bitlen d"
      using two_powi_bitlen(2) [OF d] by simp
    also have "\<dots> = 2 powi (bitlen n - 1)"
      by (simp add: k_def flip: power_int_add)
    also have "\<dots> \<le> of_int n" by (rule two_powi_bitlen(1) [OF n])
    finally show ?thesis using dpos by (simp add: q_def pos_less_divide_eq)
  qed
  have hi: "q < 2 powi (k + 1)"
  proof -
    have "of_int n < (2::rat) powi bitlen n" by (rule two_powi_bitlen(2) [OF n])
    also have "\<dots> = 2 powi (k + 1) * 2 powi (bitlen d - 1)"
      by (simp add: k_def flip: power_int_add)
    also have "\<dots> \<le> 2 powi (k + 1) * of_int d"
      using two_powi_bitlen(1) [OF d] by simp
    finally show ?thesis using dpos by (simp add: q_def pos_divide_less_eq)
  qed
  show "(2::rat) powi floor_log2 n d \<le> of_int n / of_int d"
    using lo by (simp add: floor_log2_def Let_def k_def q_def)
  show "of_int n / of_int d < (2::rat) powi (floor_log2 n d + 1)"
    using hi by (auto simp add: floor_log2_def Let_def k_def q_def not_le)
qed

lemma round_half_even_close: "\<bar>of_int (round_half_even x) - x\<bar> \<le> 1 / 2"
proof -
  have "of_int \<lfloor>x\<rfloor> \<le> x" "x < of_int \<lfloor>x\<rfloor> + 1" by linarith+
  then show ?thesis
    by (auto simp add: round_half_even_def Let_def abs_le_iff)
qed

lemma round_half_even_of_int [simp]: "round_half_even (of_int k) = k"
  by (simp add: round_half_even_def)


text \<open>The parts of a quotient: exponent, unit in the last place, and rounded value.\<close>

lemma py_truediv_unfold:
  assumes "b \<noteq> 0" "a \<noteq> 0"
  defines "q \<equiv> \<bar>of_int a / of_int b :: rat\<bar>"
  defines "sh \<equiv> max (floor_log2 \<bar>a\<bar> \<bar>b\<bar> - 52) (- 1074)"
  defines "r \<equiv> of_int (round_half_even (q / 2 powi sh)) * 2 powi sh"
  shows "py_truediv a b =
          (if 2 ^ 1024 \<le> r then Inl OverflowError
           else Inr (sgn (of_int a / of_int b) * r))"
  using assms(1,2) by (simp add: py_truediv_def Let_def q_def sh_def r_def)

lemma rounded_close:
  fixes q :: rat
  shows "\<bar>of_int (round_half_even (q / 2 powi sh)) * 2 powi sh - q\<bar> \<le> 2 powi sh / 2"
proof -
  have p: "(0::rat) < 2 powi sh" by simp
  have "\<bar>of_int (round_half_even (q / 2 powi sh)) - q / 2 powi sh\<bar> * 2 powi sh
          \<le> 1 / 2 * 2 powi sh"
    using round_half_even_close [of "q / 2 powi sh"] p
    by (intro mult_right_mono) simp_all
  moreover have "\<bar>of_int (round_half_even (q / 2 powi sh)) - q / 2 powi sh\<bar> * 2 powi sh
      = \<bar>of_int (round_half_even (q / 2 powi sh)) * 2 powi sh - q\<bar>"
  proof -
    have "\<bar>of_int (round_half_even (q / 2 powi sh)) - q / 2 powi sh\<bar> * 2 powi sh
       = \<bar>(of_int (round_half_even (q / 2 powi sh)) - q / 2 powi sh) * 2 powi sh\<bar>"
      using p by (simp add: abs_mult)
    also have "(of_int (round_half_even (q / 2 powi sh)) - q / 2 powi sh) * 2 powi sh
       = of_int (round_half_even (q / 2 powi sh)) * 2 powi sh - q"
      using p by (simp add: left_diff_distrib)
    finally show ?thesis .
  qed
  ultimately show ?thesis by simp
qed


text \<open>The result is within half a unit in the last place of the exact quotient.\<close>

lemma sgn_times_diff:
  fixes Q r :: rat
  assumes "Q \<noteq> 0"
  shows "\<bar>sgn Q * r - Q\<bar> = \<bar>r - \<bar>Q\<bar>\<bar>"
proof -
  have "sgn Q * r - Q = sgn Q * r - sgn Q * \<bar>Q\<bar>"
    by (simp only: sgn_mult_abs)
  also have "\<dots> = sgn Q * (r - \<bar>Q\<bar>)"
    by (simp only: right_diff_distrib)
  finally have "\<bar>sgn Q * r - Q\<bar> = \<bar>sgn Q\<bar> * \<bar>r - \<bar>Q\<bar>\<bar>"
    by (simp only: abs_mult)
  then show ?thesis using assms by (simp only: abs_sgn_eq if_False mult_1)
qed


lemma py_truediv_close:
  assumes "py_truediv a b = Inr x"
  shows "\<bar>x - of_int a / of_int b\<bar>
           \<le> max (\<bar>of_int a / of_int b\<bar> / 2 ^ 53) (1 / 2 ^ 1075)"
proof (cases "a = 0")
  case True
  with assms have "x = 0" by (auto simp: py_truediv_def split: if_splits)
  with True show ?thesis by (simp add: max_def)
next
  case False
  from assms have b: "b \<noteq> 0" by (auto simp: py_truediv_def)
  define Q :: rat where "Q = of_int a / of_int b"
  define e where "e = floor_log2 \<bar>a\<bar> \<bar>b\<bar>"
  define sh where "sh = max (e - 52) (- 1074)"
  define r :: rat where "r = of_int (round_half_even (\<bar>Q\<bar> / 2 powi sh)) * 2 powi sh"
  have Q0: "Q \<noteq> 0" using b False by (simp add: Q_def)
  have "py_truediv a b = (if 2 ^ 1024 \<le> r then Inl OverflowError else Inr (sgn Q * r))"
    unfolding Q_def e_def sh_def r_def by (rule py_truediv_unfold [OF b False])
  with assms have x: "x = sgn Q * r" by (simp split: if_splits)
  have "\<bar>Q\<bar> = of_int \<bar>a\<bar> / of_int \<bar>b\<bar>" by (simp add: Q_def)
  then have qe: "2 powi e \<le> \<bar>Q\<bar>"
    using floor_log2_bounds(1) [of "\<bar>a\<bar>" "\<bar>b\<bar>"] b False by (simp add: e_def)
  have "\<bar>x - Q\<bar> = \<bar>r - \<bar>Q\<bar>\<bar>"
    unfolding x by (rule sgn_times_diff [OF Q0])
  also have "\<dots> \<le> 2 powi sh / 2"
    unfolding r_def by (rule rounded_close)
  also have "\<dots> \<le> max (\<bar>Q\<bar> / 2 ^ 53) (1 / 2 ^ 1075)"
  proof (cases "- 1074 \<le> e - 52")
    case True
    then have "sh = e - 52" by (simp add: sh_def)
    then have "(2::rat) powi sh / 2 = 2 powi (e - 53)"
      by (simp add: power_int_diff)
    also have "\<dots> = 2 powi e / 2 powi 53"
      by (rule power_int_diff) simp
    also have "\<dots> = 2 powi e / 2 ^ 53"
      by (simp only: power_int_numeral)
    also have "\<dots> \<le> \<bar>Q\<bar> / 2 ^ 53" using qe by (intro divide_right_mono) simp_all
    finally show ?thesis by (simp only: le_max_iff_disj) simp
  next
    case False
    then have "sh = - 1074" by (simp add: sh_def)
    then have "(2::rat) powi sh / 2 = 1 / 2 ^ 1075"
      by (simp add: power_int_minus_divide)
    then show ?thesis by (simp only: le_max_iff_disj) simp
  qed
  finally show ?thesis by (simp only: Q_def)
qed


text \<open>No overflow below \<open>2 ^ 1023\<close>.\<close>

lemma py_truediv_returns:
  assumes b: "b \<noteq> 0" and small: "\<bar>a\<bar> < 2 ^ 1023 * \<bar>b\<bar>"
  shows "\<exists>x. py_truediv a b = Inr x"
proof (cases "a = 0")
  case True
  with b show ?thesis by (simp add: py_truediv_def)
next
  case False
  define Q :: rat where "Q = of_int a / of_int b"
  define e where "e = floor_log2 \<bar>a\<bar> \<bar>b\<bar>"
  define sh where "sh = max (e - 52) (- 1074)"
  define r :: rat where "r = of_int (round_half_even (\<bar>Q\<bar> / 2 powi sh)) * 2 powi sh"
  have unf: "py_truediv a b = (if 2 ^ 1024 \<le> r then Inl OverflowError else Inr (sgn Q * r))"
    unfolding Q_def e_def sh_def r_def by (rule py_truediv_unfold [OF b False])
  have Qab: "\<bar>Q\<bar> = of_int \<bar>a\<bar> / of_int \<bar>b\<bar>" by (simp add: Q_def)
  have "(of_int \<bar>a\<bar> :: rat) < of_int (2 ^ 1023 * \<bar>b\<bar>)"
    using small by (simp only: of_int_less_iff)
  then have "(of_int \<bar>a\<bar> :: rat) < 2 ^ 1023 * of_int \<bar>b\<bar>" by simp
  then have Qsmall: "\<bar>Q\<bar> < 2 ^ 1023"
    using b by (simp add: Qab pos_divide_less_eq)
  have "(2::rat) powi e \<le> \<bar>Q\<bar>"
    using floor_log2_bounds(1) [of "\<bar>a\<bar>" "\<bar>b\<bar>"] b False by (simp add: e_def Qab)
  with Qsmall have "(2::rat) powi e < 2 powi 1023"
    by (simp only: power_int_numeral)
  then have "e < 1023"
    by (rule power_int_le_imp_less_exp [rotated]) simp_all
  then have "sh \<le> 970" by (simp add: sh_def)
  then have "(2::rat) powi sh \<le> 2 powi 970"
    by (intro power_int_increasing) simp_all
  then have ulp: "(2::rat) powi sh \<le> 2 ^ 970" by simp
  have "\<bar>r - \<bar>Q\<bar>\<bar> \<le> 2 powi sh / 2"
    unfolding r_def by (rule rounded_close)
  then have "r \<le> \<bar>Q\<bar> + 2 powi sh / 2" by linarith
  also have "\<dots> < 2 ^ 1023 + 2 ^ 970 / 2" using Qsmall ulp by linarith
  also have "\<dots> \<le> (2::rat) ^ 1024" by simp
  finally have "\<not> 2 ^ 1024 \<le> r" by simp
  with unf show ?thesis by simp
qed


text \<open>An integer quotient below \<open>2 ^ 53\<close> is a double: the division is exact.\<close>

lemma py_truediv_exact:
  assumes b: "b \<noteq> 0" and dvd: "b dvd a" and small: "\<bar>a div b\<bar> < 2 ^ 53"
  shows "py_truediv a b = Inr (of_int (a div b))"
proof (cases "a = 0")
  case True
  with b show ?thesis by (simp add: py_truediv_def)
next
  case False
  define k where "k = a div b"
  have a: "a = k * b" using dvd by (simp add: k_def)
  have k0: "k \<noteq> 0" using False a by auto
  define Q :: rat where "Q = of_int a / of_int b"
  define e where "e = floor_log2 \<bar>a\<bar> \<bar>b\<bar>"
  define sh where "sh = max (e - 52) (- 1074)"
  define r :: rat where "r = of_int (round_half_even (\<bar>Q\<bar> / 2 powi sh)) * 2 powi sh"
  have unf: "py_truediv a b = (if 2 ^ 1024 \<le> r then Inl OverflowError else Inr (sgn Q * r))"
    unfolding Q_def e_def sh_def r_def by (rule py_truediv_unfold [OF b False])
  have Qk: "Q = of_int k" using b by (simp add: Q_def a)
  have Qab: "\<bar>Q\<bar> = of_int \<bar>a\<bar> / of_int \<bar>b\<bar>" by (simp add: Q_def)
  have Qabs: "\<bar>Q\<bar> = of_int \<bar>k\<bar>" by (simp add: Qk)
  have "(of_int \<bar>k\<bar> :: rat) < of_int (2 ^ 53)"
    using small unfolding k_def by (simp only: of_int_less_iff)
  then have Qsmall: "\<bar>Q\<bar> < 2 ^ 53" by (simp add: Qabs)
  have "(of_int 1 :: rat) \<le> of_int \<bar>k\<bar>"
    using k0 by (simp only: of_int_le_iff)
  then have Qbig: "1 \<le> \<bar>Q\<bar>" by (simp add: Qabs)
  have lo: "(2::rat) powi e \<le> \<bar>Q\<bar>" and hi: "\<bar>Q\<bar> < 2 powi (e + 1)"
    using floor_log2_bounds [of "\<bar>a\<bar>" "\<bar>b\<bar>"] b False by (simp_all add: e_def Qab)
  from lo Qsmall have "(2::rat) powi e < 2 powi 53"
    by (simp only: power_int_numeral)
  then have e53: "e < 53"
    by (rule power_int_le_imp_less_exp [rotated]) simp_all
  have e0: "0 \<le> e"
  proof (rule ccontr)
    assume "\<not> 0 \<le> e"
    then have "e + 1 \<le> 0" by simp
    then have "(2::rat) powi (e + 1) \<le> 2 powi 0"
      by (intro power_int_increasing) simp_all
    with hi Qbig show False by simp
  qed
  define n where "n = nat (52 - e)"
  have sh: "sh = - int n" using e0 e53 by (simp add: sh_def n_def)
  have p: "(2::rat) powi sh = 1 / 2 ^ n"
    by (simp add: sh power_int_minus_divide)
  have "\<bar>Q\<bar> / 2 powi sh = of_int (\<bar>k\<bar> * 2 ^ n)"
    by (simp add: p Qabs)
  then have "round_half_even (\<bar>Q\<bar> / 2 powi sh) = \<bar>k\<bar> * 2 ^ n"
    by (simp only: round_half_even_of_int)
  then have r: "r = \<bar>Q\<bar>"
    by (simp add: r_def p Qabs)
  have "r < 2 ^ 1024" using Qsmall unfolding r by simp
  with unf have "py_truediv a b = Inr (sgn Q * \<bar>Q\<bar>)" by (simp add: r)
  then show ?thesis by (simp only: sgn_mult_abs Qk k_def)
qed


lemma round_half_even_ge:
  assumes "of_int N \<le> x"
  shows "N \<le> round_half_even x"
proof -
  have "\<bar>of_int (round_half_even x) - x\<bar> \<le> 1 / 2" by (rule round_half_even_close)
  then have "of_int N - 1 < (of_int (round_half_even x) :: rat)"
    using assms by linarith
  then have "(of_int (N - 1) :: rat) < of_int (round_half_even x)" by simp
  then have "N - 1 < round_half_even x" by (simp only: of_int_less_iff)
  then show ?thesis by simp
qed

text \<open>A quotient of \<open>2 ^ 1024\<close> or more does not fit a double.\<close>

lemma py_truediv_overflow:
  assumes b: "0 < b" and big: "2 ^ 1024 * b \<le> a"
  shows "py_truediv a b = Inl OverflowError"
proof -
  have a0: "a \<noteq> 0" and b0: "b \<noteq> 0" and apos: "0 < a"
    using b big by (auto simp: zero_less_mult_iff intro: less_le_trans [of 0 "2 ^ 1024 * b"])
  define Q :: rat where "Q = of_int a / of_int b"
  define e where "e = floor_log2 \<bar>a\<bar> \<bar>b\<bar>"
  define sh where "sh = max (e - 52) (- 1074)"
  define r :: rat where "r = of_int (round_half_even (\<bar>Q\<bar> / 2 powi sh)) * 2 powi sh"
  have unf: "py_truediv a b = (if 2 ^ 1024 \<le> r then Inl OverflowError else Inr (sgn Q * r))"
    unfolding Q_def e_def sh_def r_def by (rule py_truediv_unfold [OF b0 a0])
  have Qab: "\<bar>Q\<bar> = of_int \<bar>a\<bar> / of_int \<bar>b\<bar>" by (simp add: Q_def)
  have "(of_int (2 ^ 1024 * b) :: rat) \<le> of_int a"
    using big by (simp only: of_int_le_iff)
  then have "2 ^ 1024 * (of_int b :: rat) \<le> of_int a" by simp
  then have Qbig: "2 ^ 1024 \<le> \<bar>Q\<bar>"
    using b apos by (simp add: Q_def pos_le_divide_eq)
  have lo: "(2::rat) powi e \<le> \<bar>Q\<bar>" and hi: "\<bar>Q\<bar> < 2 powi (e + 1)"
    using floor_log2_bounds [of "\<bar>a\<bar>" "\<bar>b\<bar>"] b0 a0 by (simp_all add: e_def Qab)
  from hi Qbig have "(2::rat) powi 1024 < 2 powi (e + 1)"
    by (simp only: power_int_numeral)
  then have e: "1024 \<le> e"
  proof -
    have "\<not> e + 1 \<le> 1024"
    proof
      assume "e + 1 \<le> 1024"
      then have "(2::rat) powi (e + 1) \<le> 2 powi 1024"
        by (intro power_int_increasing) simp_all
      with \<open>(2::rat) powi 1024 < 2 powi (e + 1)\<close> show False by simp
    qed
    then show ?thesis by simp
  qed
  then have sh: "sh = e - 52" by (simp add: sh_def)
  have "(2::rat) powi e / 2 powi sh = 2 powi 52"
    by (simp add: sh flip: power_int_diff)
  then have "(of_int (2 ^ 52) :: rat) = 2 powi e / 2 powi sh" by simp
  also have "\<dots> \<le> \<bar>Q\<bar> / 2 powi sh"
    using lo by (intro divide_right_mono) simp_all
  finally have "2 ^ 52 \<le> round_half_even (\<bar>Q\<bar> / 2 powi sh)"
    by (rule round_half_even_ge)
  then have "(of_int (2 ^ 52) :: rat) \<le> of_int (round_half_even (\<bar>Q\<bar> / 2 powi sh))"
    by (simp only: of_int_le_iff)
  then have "of_int (2 ^ 52) * 2 powi sh \<le> r"
    unfolding r_def by (intro mult_right_mono) simp_all
  moreover have "(of_int (2 ^ 52) :: rat) * 2 powi sh = 2 powi e"
  proof -
    have "(of_int (2 ^ 52) :: rat) = 2 powi 52" by simp
    then have "(of_int (2 ^ 52) :: rat) * 2 powi sh = 2 powi 52 * 2 powi sh" by (simp only:)
    also have "\<dots> = 2 powi (52 + sh)" by (rule power_int_add [symmetric]) simp
    finally show ?thesis by (simp add: sh)
  qed
  moreover have "(2::rat) powi 1024 \<le> 2 powi e"
    using e by (intro power_int_increasing) simp_all
  ultimately have "2 ^ 1024 \<le> r" by simp
  with unf show ?thesis by simp
qed

lemma round_half_even_nonneg:
  assumes "0 \<le> x"
  shows "0 \<le> round_half_even x"
proof -
  have "(of_int 0 :: rat) \<le> x" using assms by simp
  then show ?thesis by (rule round_half_even_ge)
qed

subsection \<open>The rounding of a rational number\<close>

text \<open>True division of the numerator by the denominator is \<open>nearest_double\<close> with a bound.\<close>

lemma py_truediv_nearest_double:
  assumes "quotient_of q = (n, d)"
  shows "py_truediv n d =
           (if 2 ^ 1024 \<le> \<bar>nearest_double q\<bar> then Inl OverflowError
            else Inr (nearest_double q))"
proof (cases "q = 0")
  case True
  then have "n = 0" "d = 1" using assms by simp_all
  then show ?thesis using True by (simp add: py_truediv_def nearest_double_def)
next
  case False
  have d: "0 < d" using assms by (rule quotient_of_denom_pos)
  have q: "q = of_int n / of_int d" using assms by (rule quotient_of_div)
  have n: "n \<noteq> 0" using False q by auto
  define sh where "sh = max (floor_log2 \<bar>n\<bar> \<bar>d\<bar> - 52) (- 1074)"
  define r :: rat where "r = of_int (round_half_even (\<bar>q\<bar> / 2 powi sh)) * 2 powi sh"
  have unf: "py_truediv n d = (if 2 ^ 1024 \<le> r then Inl OverflowError else Inr (sgn q * r))"
    unfolding q sh_def r_def using d n by (intro py_truediv_unfold) simp_all
  have nd: "nearest_double q = sgn q * r"
    using False assms d by (simp add: nearest_double_def r_def sh_def Let_def)
  have "0 \<le> round_half_even (\<bar>q\<bar> / 2 powi sh)"
    by (rule round_half_even_nonneg) simp
  then have "0 \<le> r" by (simp add: r_def)
  then have "\<bar>sgn q * r\<bar> = r" using False by (simp add: abs_mult)
  then show ?thesis by (simp add: unf nd)
qed

lemma nearest_double_bounded:
  assumes "\<bar>q\<bar> < 2 ^ 1023"
  shows "\<bar>nearest_double q\<bar> < 2 ^ 1024"
    and "\<bar>nearest_double q - q\<bar> \<le> max (\<bar>q\<bar> / 2 ^ 53) (1 / 2 ^ 1075)"
proof -
  obtain n d where nd: "quotient_of q = (n, d)" by (cases "quotient_of q")
  have d: "0 < d" using nd by (rule quotient_of_denom_pos)
  have q: "q = of_int n / of_int d" using nd by (rule quotient_of_div)
  have "\<bar>of_int n :: rat\<bar> < 2 ^ 1023 * of_int d"
    using assms d by (simp add: q pos_divide_less_eq)
  then have "(of_int \<bar>n\<bar> :: rat) < of_int (2 ^ 1023 * \<bar>d\<bar>)" using d by simp
  then have "\<bar>n\<bar> < 2 ^ 1023 * \<bar>d\<bar>" by (simp only: of_int_less_iff)
  with d obtain x where x: "py_truediv n d = Inr x"
    using py_truediv_returns [of d n] by auto
  from x py_truediv_nearest_double [OF nd]
  have fin: "\<not> 2 ^ 1024 \<le> \<bar>nearest_double q\<bar>" and eq: "x = nearest_double q"
    by (auto split: if_splits)
  from fin show "\<bar>nearest_double q\<bar> < 2 ^ 1024" by simp
  from py_truediv_close [OF x]
  show "\<bar>nearest_double q - q\<bar> \<le> max (\<bar>q\<bar> / 2 ^ 53) (1 / 2 ^ 1075)"
    by (simp only: eq q)
qed

lemma nearest_double_of_int:
  assumes "\<bar>k\<bar> < 2 ^ 53"
  shows "nearest_double (of_int k) = of_int k"
proof -
  have "py_truediv k 1 = Inr (of_int (k div 1))"
    using assms by (intro py_truediv_exact) simp_all
  moreover have "quotient_of (of_int k) = (k, 1)" by simp
  ultimately show ?thesis
    using py_truediv_nearest_double [of "of_int k" k 1] by (simp split: if_splits)
qed

lemma round_to_double_finite:
  assumes "\<bar>q\<bar> < 2 ^ 1023"
  shows "round_to_double q = Finite (nearest_double q)"
  using nearest_double_bounded(1) [OF assms]
  by (simp add: round_to_double_def Let_def abs_less_iff)

lemma float_of_int_small:
  assumes "\<bar>k\<bar> < 2 ^ 53"
  shows "float_of_int k = Inr (Finite (of_int k))"
proof -
  have "(of_int \<bar>k\<bar> :: rat) < of_int (2 ^ 53)"
    using assms by (simp only: of_int_less_iff)
  then have "\<bar>of_int k :: rat\<bar> < 2 ^ 53" by simp
  then have "\<bar>of_int k :: rat\<bar> < 2 ^ 1024" by simp
  then show ?thesis
    using assms by (simp add: float_of_int_def nearest_double_of_int)
qed


section \<open>What the two functions return\<close>

lemma process_data_result:
  "fst (process_data items) =
     and_then (py_sum (map (\<lambda>item. dict_get item ''value'' (PyInt 0)) items)) (\<lambda>t.
     and_then (if items = [] then Inr (PyInt 0) else py_div t (PyInt (int (length items))))
       (\<lambda>a. Inr [''total'' \<mapsto> t, ''count'' \<mapsto> PyInt (int (length items)),
                   ''average'' \<mapsto> a]))"
  by (cases items) (simp_all add: process_data_def Let_def)

lemma process_data_frame: "snd (process_data items) = items"
  by (simp add: process_data_def)

text \<open>The two files write the keys of the result in different orders; the dictionaries are equal.\<close>

lemma summary_key_order:
  "[''count'' \<mapsto> c, ''total'' \<mapsto> t, ''average'' \<mapsto> a] =
   [''total'' \<mapsto> t, ''count'' \<mapsto> c, ''average'' \<mapsto> (a::pyval)]"
  by (rule ext) simp

lemma get_summary_result:
  "fst (get_summary self) = fst (process_data (data self))"
proof (cases "data self = []")
  case True
  then show ?thesis
    by (simp add: get_summary_def process_data_result py_sum_def summary_key_order)
next
  case False
  then show ?thesis
    by (simp add: get_summary_def process_data_result Let_def summary_key_order)
qed

lemma get_summary_frame: "snd (get_summary self) = self"
  by (simp add: get_summary_def Let_def)

lemma data_exec: "data (exec cs self) = data self @ added cs"
  unfolding exec_def
  by (induction cs arbitrary: self rule: added.induct)
     (simp_all add: add_item_def get_summary_frame)

text \<open>
  The quotient of a total by a count: it is a finite \<^verbatim>\<open>float\<close> within half a unit in the
  last place of the exact quotient, when the mean is below \<open>2 ^ 1023\<close> (and, for a
  \<^verbatim>\<open>float\<close> total, the count is below \<open>2 ^ 53\<close>, so that its conversion is exact).
\<close>

lemma py_div_close:
  assumes t: "number_of t = Some T" and n: "0 < n"
    and small: "\<bar>T\<bar> < 2 ^ 1023 * of_int n"
    and cnt: "is_float t \<Longrightarrow> n < 2 ^ 53"
  shows "\<exists>x. py_div t (PyInt n) = Inr (PyFloat (Finite x))
           \<and> \<bar>x - T / of_int n\<bar> \<le> max (\<bar>T / of_int n\<bar> / 2 ^ 53) (1 / 2 ^ 1075)"
proof (cases t)
  case (PyInt a)
  with t have T: "T = of_int a" by simp
  have "(of_int \<bar>a\<bar> :: rat) < of_int (2 ^ 1023 * \<bar>n\<bar>)"
    using small n by (simp add: T)
  then have "\<bar>a\<bar> < 2 ^ 1023 * \<bar>n\<bar>" by (simp only: of_int_less_iff)
  with n obtain x where x: "py_truediv a n = Inr x"
    using py_truediv_returns [of n a] by auto
  from py_truediv_close [OF x] x show ?thesis by (simp add: PyInt T)
next
  case (PyFloat f)
  with t have f: "f = Finite T" by (cases f) simp_all
  have n53: "n < 2 ^ 53" using cnt PyFloat by simp
  then have conv: "float_of_int n = Inr (Finite (of_int n))"
    using n by (intro float_of_int_small) simp
  have q: "\<bar>T / of_int n\<bar> < 2 ^ 1023"
    using small n by (simp add: pos_divide_less_eq)
  have "py_div t (PyInt n) = Inr (PyFloat (Finite (nearest_double (T / of_int n))))"
    using n by (simp add: PyFloat f conv round_to_double_finite [OF q])
  with nearest_double_bounded(2) [OF q] show ?thesis by simp
next
  case (PyStr s)
  with t show ?thesis by simp
qed

text \<open>With \<^verbatim>\<open>int\<close> values only, the total is the exact sum and the division decides the rest.\<close>

lemma process_data_int_result:
  assumes "list_all int_valued R"
  shows "fst (process_data R) =
     and_then (if R = [] then Inr (PyInt 0)
               else py_div (PyInt (sum_list (map extract_value R))) (PyInt (int (length R))))
       (\<lambda>a. Inr [''total'' \<mapsto> PyInt (sum_list (map extract_value R)),
                   ''count'' \<mapsto> PyInt (int (length R)), ''average'' \<mapsto> a])"
  by (simp add: process_data_result py_sum_values_int [OF assms])

text \<open>The call returns when every value is an \<^verbatim>\<open>int\<close> and the mean is below \<open>2 ^ 1023\<close>.\<close>

lemma process_data_returns:
  assumes "list_all int_valued R"
    and "R = [] \<or> \<bar>sum_list (map extract_value R)\<bar> < 2 ^ 1023 * int (length R)"
  shows "\<exists>s. fst (process_data R) = Inr s
           \<and> s ''total'' = Some (PyInt (sum_list (map extract_value R)))
           \<and> s ''count'' = Some (PyInt (int (length R)))"
proof (cases "R = []")
  case True
  then show ?thesis unfolding process_data_int_result [OF assms(1)] by simp
next
  case False
  then have n: "0 < int (length R)" by simp
  have "\<bar>sum_list (map extract_value R)\<bar> < 2 ^ 1023 * \<bar>int (length R)\<bar>"
    using assms(2) False by simp
  with n obtain x where
    "py_truediv (sum_list (map extract_value R)) (int (length R)) = Inr x"
    using py_truediv_returns [of "int (length R)" "sum_list (map extract_value R)"] by auto
  then show ?thesis
    using False by (simp add: process_data_int_result [OF assms(1)])
qed

text \<open>With \<^verbatim>\<open>int\<close> values only, the one exception is that of the division.\<close>

lemma process_data_int_outcome:
  assumes "list_all int_valued R"
  shows "fst (process_data R) = Inl OverflowError
       \<or> (\<exists>s. fst (process_data R) = Inr s
             \<and> s ''total'' = Some (PyInt (sum_list (map extract_value R)))
             \<and> s ''count'' = Some (PyInt (int (length R))))"
proof (cases "R = []")
  case True
  then show ?thesis unfolding process_data_int_result [OF assms] by simp
next
  case False
  then have n: "int (length R) \<noteq> 0" by simp
  show ?thesis
  proof (cases "py_truediv (sum_list (map extract_value R)) (int (length R))")
    case (Inl e)
    then have "e = OverflowError"
      using n by (auto simp: py_truediv_def Let_def split: if_splits)
    with Inl show ?thesis
      using False by (simp add: process_data_int_result [OF assms])
  next
    case (Inr x)
    then show ?thesis
      using False by (simp add: process_data_int_result [OF assms])
  qed
qed

text \<open>What a returned summary holds.\<close>

lemma process_data_returned:
  assumes "fst (process_data R) = Inr s"
  shows "\<exists>t a. py_sum (map (\<lambda>item. dict_get item ''value'' (PyInt 0)) R) = Inr t
           \<and> (if R = [] then a = PyInt 0 else py_div t (PyInt (int (length R))) = Inr a)
           \<and> s = [''total'' \<mapsto> t, ''count'' \<mapsto> PyInt (int (length R)), ''average'' \<mapsto> a]"
proof (cases "py_sum (map (\<lambda>item. dict_get item ''value'' (PyInt 0)) R)")
  case (Inl e)
  with assms show ?thesis by (simp add: process_data_result)
next
  case t: (Inr t)
  show ?thesis
  proof (cases "R = []")
    case True
    with assms t show ?thesis by (simp add: process_data_result)
  next
    case False
    show ?thesis
    proof (cases "py_div t (PyInt (int (length R)))")
      case (Inl e)
      with assms t False show ?thesis by (simp add: process_data_result)
    next
      case (Inr a)
      with assms t False show ?thesis by (simp add: process_data_result)
    qed
  qed
qed

lemma process_data_run_frame:
  assumes "process_data_run R out"
  shows "snd out = R"
  using assms by (cases rule: process_data_run.cases) simp_all

lemma process_data_run_total: "\<exists>out. process_data_run R out"
  using process_data_run_process_data by blast

subsection \<open>Some roundings, quotients and sums\<close>

lemma nearest_3_2: "nearest_double (3 / 2) = 3 / 2"
  by code_simp

lemma nearest_7_2: "nearest_double (7 / 2) = 7 / 2"
  by code_simp

lemma nearest_7_4: "nearest_double (7 / 4) = 7 / 4"
  by code_simp

lemma nearest_1_3: "nearest_double (1 / 3) = 6004799503160661 / 18014398509481984"
  by code_simp

lemma nearest_2p52: "nearest_double 4503599627370496 = 4503599627370496"
  by code_simp

lemma nearest_2p53: "nearest_double 9007199254740992 = 9007199254740992"
  by code_simp

text \<open>A tie goes to the even neighbour: \<open>2 ^ 53 + 1\<close> is rounded to \<open>2 ^ 53\<close>.\<close>

lemma nearest_2p53_1: "nearest_double 9007199254740993 = 9007199254740992"
  by code_simp

lemma quotient_7_2: "quotient_of (7 / 2) = (7, 2)"
  by code_simp

lemma quotient_1_3: "quotient_of (1 / 3) = (1, 3)"
  by code_simp

lemma truediv_30_3: "py_truediv 30 3 = Inr 10"
  using py_truediv_exact [of 3 30] by simp

lemma truediv_12_2: "py_truediv 12 2 = Inr 6"
  using py_truediv_exact [of 2 12] by simp

lemma truediv_10_1: "py_truediv 10 1 = Inr 10"
  using py_truediv_exact [of 1 10] by simp

lemma truediv_7_2: "py_truediv 7 2 = Inr (7 / 2)"
  using py_truediv_nearest_double [OF quotient_7_2] by (simp add: nearest_7_2)

text \<open>A quotient that is not a double is rounded: \<^verbatim>\<open>1 / 3\<close> is \<open>6004799503160661 / 2 ^ 54\<close>.\<close>

lemma truediv_1_3: "py_truediv 1 3 = Inr (6004799503160661 / 18014398509481984)"
  using py_truediv_nearest_double [OF quotient_1_3] by (simp add: nearest_1_3)

text \<open>Without the test \<^verbatim>\<open>count > 0\<close> the division of the empty call would raise.\<close>

lemma truediv_by_zero: "py_truediv a 0 = Inl ZeroDivisionError"
  by (simp add: py_truediv_def)

subsection \<open>The examples of the specification\<close>

lemma run_10_20_none:
  "fst (process_data [[''value'' \<mapsto> PyInt 10], [''value'' \<mapsto> PyInt 20], Map.empty]) =
     Inr [''total'' \<mapsto> PyInt 30, ''count'' \<mapsto> PyInt 3, ''average'' \<mapsto> PyFloat (Finite 10)]"
  by (simp add: process_data_def py_sum_def dict_get_def truediv_30_3)

lemma run_5_7:
  "fst (process_data [[''value'' \<mapsto> PyInt 5], [''value'' \<mapsto> PyInt 7]]) =
     Inr [''total'' \<mapsto> PyInt 12, ''count'' \<mapsto> PyInt 2, ''average'' \<mapsto> PyFloat (Finite 6)]"
  by (simp add: process_data_def py_sum_def dict_get_def truediv_12_2)

lemma run_10:
  "fst (process_data [[''value'' \<mapsto> PyInt 10]]) =
     Inr [''total'' \<mapsto> PyInt 10, ''count'' \<mapsto> PyInt 1, ''average'' \<mapsto> PyFloat (Finite 10)]"
  by (simp add: process_data_def py_sum_def dict_get_def truediv_10_1)

text \<open>A mixed list: \<^verbatim>\<open>[{'value': 1.5}, {'value': 2}]\<close> has total \<^verbatim>\<open>3.5\<close> and average \<^verbatim>\<open>1.75\<close>.\<close>

lemma run_mixed:
  "fst (process_data [[''value'' \<mapsto> PyFloat (Finite (3 / 2))], [''value'' \<mapsto> PyInt 2]]) =
     Inr [''total'' \<mapsto> PyFloat (Finite (7 / 2)), ''count'' \<mapsto> PyInt 2,
          ''average'' \<mapsto> PyFloat (Finite (7 / 4))]"
  by (simp add: process_data_def py_sum_def dict_get_def float_of_int_small
      round_to_double_finite nearest_3_2 nearest_7_2 nearest_7_4)

text \<open>
  A sum with a \<^verbatim>\<open>float\<close> is rounded: the total of
  \<^verbatim>\<open>[{'value': 9007199254740992.0}, {'value': 1}]\<close> is \<^verbatim>\<open>9007199254740992.0\<close>.
\<close>

lemma run_rounded:
  "fst (process_data [[''value'' \<mapsto> PyFloat (Finite 9007199254740992)], [''value'' \<mapsto> PyInt 1]]) =
     Inr [''total'' \<mapsto> PyFloat (Finite 9007199254740992), ''count'' \<mapsto> PyInt 2,
          ''average'' \<mapsto> PyFloat (Finite 4503599627370496)]"
  by (simp add: process_data_def py_sum_def dict_get_def float_of_int_small
      round_to_double_finite nearest_2p53 nearest_2p53_1 nearest_2p52)

text \<open>A value of \<open>2 ^ 1024\<close> makes the division, hence the call, raise.\<close>

lemma run_overflow:
  "fst (process_data [[''value'' \<mapsto> PyInt (2 ^ 1024)]]) = Inl OverflowError"
  by (simp add: process_data_def py_sum_def dict_get_def py_truediv_overflow)

text \<open>A record whose \<^verbatim>\<open>value\<close> is a \<^verbatim>\<open>str\<close> makes the call raise.\<close>

lemma run_str:
  "fst (process_data [[''value'' \<mapsto> PyInt 1], [''value'' \<mapsto> PyStr ''x'']]) = Inl TypeError"
  by (simp add: process_data_def py_sum_def dict_get_def)

text \<open>The order of the values matters to a sum of \<^verbatim>\<open>float\<close>s.\<close>

lemma nearest_2p53_2: "nearest_double 9007199254740994 = 9007199254740994"
  by code_simp

lemma sum_float_last:
  "py_sum [PyInt 1, PyInt 1, PyFloat (Finite 9007199254740992)]
     = Inr (PyFloat (Finite 9007199254740994))"
  by (simp add: py_sum_def float_of_int_small round_to_double_finite nearest_2p53_2)

lemma sum_float_first:
  "py_sum [PyFloat (Finite 9007199254740992), PyInt 1, PyInt 1]
     = Inr (PyFloat (Finite 9007199254740992))"
  by (simp add: py_sum_def float_of_int_small round_to_double_finite nearest_2p53
      nearest_2p53_1)

section \<open>The properties of the specification\<close>

text \<open>
  C1. The total of \<^verbatim>\<open>[{'value': 9007199254740992.0}, {'value': 1}]\<close> is
  \<^verbatim>\<open>9007199254740992.0\<close>, and the arithmetic sum of the two values is
  \<open>9007199254740993\<close>: with a \<^verbatim>\<open>float\<close> among the values the total is a rounded sum.
\<close>

theorem float_total_counterexample:
  "total_of (fst (process_data
      [[''value'' \<mapsto> PyFloat (Finite 9007199254740992)], [''value'' \<mapsto> PyInt 1]]))
     = Some 9007199254740992
   \<and> sum_list (map exact_value
      [[''value'' \<mapsto> PyFloat (Finite 9007199254740992)], [''value'' \<mapsto> PyInt 1]])
     = 9007199254740993
   \<and> total_of (fst (process_data
      [[''value'' \<mapsto> PyFloat (Finite 9007199254740992)], [''value'' \<mapsto> PyInt 1]]))
     \<noteq> Some (sum_list (map exact_value
      [[''value'' \<mapsto> PyFloat (Finite 9007199254740992)], [''value'' \<mapsto> PyInt 1]]))"
  by (simp add: run_rounded total_of_def exact_value_def)

text \<open>
  C1, amended. For every list \<open>R\<close> of records that hold an \<^verbatim>\<open>int\<close> under \<^verbatim>\<open>value\<close> or lack
  the key: \<open>process_data R\<close> returns a summary when \<open>R\<close> is empty or the mean is below
  \<open>2 ^ 1023\<close> in magnitude; the \<^verbatim>\<open>total\<close> of every summary that it returns is the \<^verbatim>\<open>int\<close>
  that is the exact arithmetic sum of the values, a missing key counting \<open>0\<close>; and the one
  exception that it can raise is the \<^verbatim>\<open>OverflowError\<close> of the division.
\<close>

theorem process_data_total:
  assumes "list_all int_valued R"
  shows "(R = [] \<or> \<bar>sum_list (map extract_value R)\<bar> < 2 ^ 1023 * int (length R) \<longrightarrow>
            (\<exists>s. fst (process_data R) = Inr s
               \<and> s ''total'' = Some (PyInt (sum_list (map extract_value R)))))
       \<and> (\<forall>s. fst (process_data R) = Inr s \<longrightarrow>
            s ''total'' = Some (PyInt (sum_list (map extract_value R))))
       \<and> (\<forall>e. fst (process_data R) = Inl e \<longrightarrow> e = OverflowError)
       \<and> sum_list (map exact_value R) = of_int (sum_list (map extract_value R))"
proof (intro conjI impI allI)
  assume "R = [] \<or> \<bar>sum_list (map extract_value R)\<bar> < 2 ^ 1023 * int (length R)"
  from process_data_returns [OF assms this]
  show "\<exists>s. fst (process_data R) = Inr s
          \<and> s ''total'' = Some (PyInt (sum_list (map extract_value R)))"
    by blast
next
  fix s assume "fst (process_data R) = Inr s"
  with process_data_int_outcome [OF assms]
  show "s ''total'' = Some (PyInt (sum_list (map extract_value R)))" by auto
next
  fix e assume "fst (process_data R) = Inl e"
  with process_data_int_outcome [OF assms] show "e = OverflowError" by auto
next
  show "sum_list (map exact_value R) = of_int (sum_list (map extract_value R))"
    using assms by (rule sum_exact_value_int)
qed

theorem process_data_total_witness:
  "list_all int_valued [[''value'' \<mapsto> PyInt 10], [''value'' \<mapsto> PyInt 20], Map.empty]
   \<and> fst (process_data [[''value'' \<mapsto> PyInt 10], [''value'' \<mapsto> PyInt 20], Map.empty]) =
     Inr [''total'' \<mapsto> PyInt 30, ''count'' \<mapsto> PyInt 3, ''average'' \<mapsto> PyFloat (Finite 10)]
   \<and> [''total'' \<mapsto> PyInt 30, ''count'' \<mapsto> PyInt 3, ''average'' \<mapsto> PyFloat (Finite 10)] ''total'' =
       Some (PyInt (sum_list (map extract_value
         [[''value'' \<mapsto> PyInt 10], [''value'' \<mapsto> PyInt 20], Map.empty])))"
proof -
  have h: "list_all int_valued [[''value'' \<mapsto> PyInt 10], [''value'' \<mapsto> PyInt 20], Map.empty]"
    by (simp add: int_valued_def)
  from process_data_total [OF h]
  have "\<forall>s. fst (process_data [[''value'' \<mapsto> PyInt 10], [''value'' \<mapsto> PyInt 20], Map.empty])
          = Inr s \<longrightarrow>
        s ''total'' = Some (PyInt (sum_list (map extract_value
          [[''value'' \<mapsto> PyInt 10], [''value'' \<mapsto> PyInt 20], Map.empty])))"
    by (elim conjE)
  with run_10_20_none
  have "[''total'' \<mapsto> PyInt 30, ''count'' \<mapsto> PyInt 3, ''average'' \<mapsto> PyFloat (Finite 10)] ''total'' =
       Some (PyInt (sum_list (map extract_value
         [[''value'' \<mapsto> PyInt 10], [''value'' \<mapsto> PyInt 20], Map.empty])))"
    by blast
  with h run_10_20_none show ?thesis by (intro conjI)
qed

text \<open>
  C2. Whenever \<open>process_data R\<close> returns a summary, its \<^verbatim>\<open>count\<close> is the length of \<open>R\<close>;
  and it does return one, with this count, when the values are \<^verbatim>\<open>int\<close>s and \<open>R\<close> is empty
  or the mean is below \<open>2 ^ 1023\<close> in magnitude.
\<close>

theorem process_data_count:
  "(fst (process_data R) = Inr s \<longrightarrow> s ''count'' = Some (PyInt (int (length R))))
   \<and> (list_all int_valued R
        \<and> (R = [] \<or> \<bar>sum_list (map extract_value R)\<bar> < 2 ^ 1023 * int (length R)) \<longrightarrow>
        (\<exists>s'. fst (process_data R) = Inr s'
            \<and> s' ''count'' = Some (PyInt (int (length R)))))"
proof (intro conjI impI)
  assume "fst (process_data R) = Inr s"
  from process_data_returned [OF this]
  show "s ''count'' = Some (PyInt (int (length R)))" by auto
next
  assume "list_all int_valued R
    \<and> (R = [] \<or> \<bar>sum_list (map extract_value R)\<bar> < 2 ^ 1023 * int (length R))"
  then show "\<exists>s'. fst (process_data R) = Inr s'
      \<and> s' ''count'' = Some (PyInt (int (length R)))"
    using process_data_returns [of R] by blast
qed

theorem process_data_count_witness:
  "fst (process_data [[''value'' \<mapsto> PyInt 10], [''value'' \<mapsto> PyInt 20], Map.empty]) =
     Inr [''total'' \<mapsto> PyInt 30, ''count'' \<mapsto> PyInt 3, ''average'' \<mapsto> PyFloat (Finite 10)]
   \<and> list_all int_valued [[''value'' \<mapsto> PyInt 10], [''value'' \<mapsto> PyInt 20], Map.empty]
   \<and> \<bar>sum_list (map extract_value
         [[''value'' \<mapsto> PyInt 10], [''value'' \<mapsto> PyInt 20], Map.empty])\<bar>
       < 2 ^ 1023 * int (length [[''value'' \<mapsto> PyInt 10], [''value'' \<mapsto> PyInt 20], Map.empty :: pyrecord])
   \<and> [''total'' \<mapsto> PyInt 30, ''count'' \<mapsto> PyInt 3, ''average'' \<mapsto> PyFloat (Finite 10)] ''count'' =
       Some (PyInt (int (length
         [[''value'' \<mapsto> PyInt 10], [''value'' \<mapsto> PyInt 20], Map.empty :: pyrecord])))"
proof -
  have h: "list_all int_valued [[''value'' \<mapsto> PyInt 10], [''value'' \<mapsto> PyInt 20], Map.empty]"
    by (simp add: int_valued_def)
  have b: "\<bar>sum_list (map extract_value
         [[''value'' \<mapsto> PyInt 10], [''value'' \<mapsto> PyInt 20], Map.empty])\<bar>
       < 2 ^ 1023 * int (length [[''value'' \<mapsto> PyInt 10], [''value'' \<mapsto> PyInt 20], Map.empty :: pyrecord])"
    by (simp add: extract_value_def)
  from process_data_count
    [of "[[''value'' \<mapsto> PyInt 10], [''value'' \<mapsto> PyInt 20], Map.empty]"
        "[''total'' \<mapsto> PyInt 30, ''count'' \<mapsto> PyInt 3, ''average'' \<mapsto> PyFloat (Finite 10)]"]
    run_10_20_none
  have "[''total'' \<mapsto> PyInt 30, ''count'' \<mapsto> PyInt 3, ''average'' \<mapsto> PyFloat (Finite 10)] ''count'' =
       Some (PyInt (int (length
         [[''value'' \<mapsto> PyInt 10], [''value'' \<mapsto> PyInt 20], Map.empty :: pyrecord])))"
    by blast
  with run_10_20_none h b show ?thesis by (intro conjI)
qed

text \<open>
  C3. On the empty list \<open>process_data\<close> returns a summary whose \<^verbatim>\<open>average\<close> is the \<^verbatim>\<open>int\<close>
  \<open>0\<close>, instead of raising \<^verbatim>\<open>ZeroDivisionError\<close>. On a list \<open>R\<close> with a record, the
  \<^verbatim>\<open>average\<close> of every summary that it returns is \<^verbatim>\<open>total / count\<close>, the quotient of the
  two other fields by Python's division. Whenever the sum of the values is a number
  \<open>T\<close> with \<open>\<bar>T\<bar> < 2 ^ 1023 * count\<close> (and \<open>count < 2 ^ 53\<close> when the sum is a \<^verbatim>\<open>float\<close>), the
  call does return a summary, and its \<^verbatim>\<open>average\<close> is a finite \<^verbatim>\<open>float\<close> within half a unit
  in the last place of the exact quotient \<open>T / count\<close>; so it is for \<^verbatim>\<open>int\<close> values when
  the mean is below \<open>2 ^ 1023\<close> in magnitude.
\<close>

theorem process_data_average:
  "(\<exists>s0. fst (process_data []) = Inr s0 \<and> s0 ''average'' = Some (PyInt 0))
   \<and> (fst (process_data R) = Inr s \<and> R \<noteq> [] \<longrightarrow>
        (\<exists>t a. s ''total'' = Some t \<and> s ''count'' = Some (PyInt (int (length R)))
            \<and> s ''average'' = Some a
            \<and> py_div t (PyInt (int (length R))) = Inr a))
   \<and> (R \<noteq> [] \<and> py_sum (map (\<lambda>item. dict_get item ''value'' (PyInt 0)) R) = Inr t
        \<and> number_of t = Some T \<and> \<bar>T\<bar> < 2 ^ 1023 * of_int (int (length R))
        \<and> (is_float t \<longrightarrow> int (length R) < 2 ^ 53) \<longrightarrow>
        (\<exists>s x. fst (process_data R) = Inr s \<and> s ''total'' = Some t
            \<and> s ''average'' = Some (PyFloat (Finite x))
            \<and> \<bar>x - T / of_int (int (length R))\<bar>
                \<le> max (\<bar>T / of_int (int (length R))\<bar> / 2 ^ 53) (1 / 2 ^ 1075)))
   \<and> (R \<noteq> [] \<and> list_all int_valued R
        \<and> \<bar>sum_list (map extract_value R)\<bar> < 2 ^ 1023 * int (length R) \<longrightarrow>
        (\<exists>s x. fst (process_data R) = Inr s
            \<and> s ''total'' = Some (PyInt (sum_list (map extract_value R)))
            \<and> s ''average'' = Some (PyFloat (Finite x))
            \<and> \<bar>x - of_int (sum_list (map extract_value R)) / of_int (int (length R))\<bar>
                \<le> max (\<bar>of_int (sum_list (map extract_value R)) / of_int (int (length R))\<bar>
                         / 2 ^ 53) (1 / 2 ^ 1075)))"
proof -
  have general: "\<exists>s x. fst (process_data R) = Inr s \<and> s ''total'' = Some t
            \<and> s ''average'' = Some (PyFloat (Finite x))
            \<and> \<bar>x - T / of_int (int (length R))\<bar>
                \<le> max (\<bar>T / of_int (int (length R))\<bar> / 2 ^ 53) (1 / 2 ^ 1075)"
    if ne: "R \<noteq> []"
      and sum: "py_sum (map (\<lambda>item. dict_get item ''value'' (PyInt 0)) R) = Inr t"
      and num: "number_of t = Some T"
      and small: "\<bar>T\<bar> < 2 ^ 1023 * of_int (int (length R))"
      and cnt: "is_float t \<longrightarrow> int (length R) < 2 ^ 53"
    for t T
  proof -
    have n: "0 < int (length R)" using ne by simp
    from py_div_close [OF num n small] cnt obtain x
      where x: "py_div t (PyInt (int (length R))) = Inr (PyFloat (Finite x))"
        and c: "\<bar>x - T / of_int (int (length R))\<bar>
                \<le> max (\<bar>T / of_int (int (length R))\<bar> / 2 ^ 53) (1 / 2 ^ 1075)"
      by blast
    have "fst (process_data R) =
        Inr [''total'' \<mapsto> t, ''count'' \<mapsto> PyInt (int (length R)),
             ''average'' \<mapsto> PyFloat (Finite x)]"
      using ne sum x by (simp add: process_data_result)
    with c show ?thesis by simp
  qed
  have c1: "\<exists>s0. fst (process_data []) = Inr s0 \<and> s0 ''average'' = Some (PyInt 0)"
    by (simp add: process_data_result py_sum_def)
  have c2: "\<exists>t a. s ''total'' = Some t \<and> s ''count'' = Some (PyInt (int (length R)))
            \<and> s ''average'' = Some a \<and> py_div t (PyInt (int (length R))) = Inr a"
    if "fst (process_data R) = Inr s \<and> R \<noteq> []"
    using process_data_returned [of R s] that by auto
  have c3: "\<exists>s x. fst (process_data R) = Inr s \<and> s ''total'' = Some t
            \<and> s ''average'' = Some (PyFloat (Finite x))
            \<and> \<bar>x - T / of_int (int (length R))\<bar>
                \<le> max (\<bar>T / of_int (int (length R))\<bar> / 2 ^ 53) (1 / 2 ^ 1075)"
    if "R \<noteq> [] \<and> py_sum (map (\<lambda>item. dict_get item ''value'' (PyInt 0)) R) = Inr t
        \<and> number_of t = Some T \<and> \<bar>T\<bar> < 2 ^ 1023 * of_int (int (length R))
        \<and> (is_float t \<longrightarrow> int (length R) < 2 ^ 53)"
    using that by (intro general) blast+
  have c4: "\<exists>s x. fst (process_data R) = Inr s
            \<and> s ''total'' = Some (PyInt (sum_list (map extract_value R)))
            \<and> s ''average'' = Some (PyFloat (Finite x))
            \<and> \<bar>x - of_int (sum_list (map extract_value R)) / of_int (int (length R))\<bar>
                \<le> max (\<bar>of_int (sum_list (map extract_value R)) / of_int (int (length R))\<bar>
                         / 2 ^ 53) (1 / 2 ^ 1075)"
    if h: "R \<noteq> [] \<and> list_all int_valued R
        \<and> \<bar>sum_list (map extract_value R)\<bar> < 2 ^ 1023 * int (length R)"
  proof (rule general)
    show "R \<noteq> []" using h by blast
    show "py_sum (map (\<lambda>item. dict_get item ''value'' (PyInt 0)) R)
        = Inr (PyInt (sum_list (map extract_value R)))"
      using h by (intro py_sum_values_int) blast
    show "number_of (PyInt (sum_list (map extract_value R)))
        = Some (of_int (sum_list (map extract_value R)))"
      by simp
    have "(of_int \<bar>sum_list (map extract_value R)\<bar> :: rat)
        < of_int (2 ^ 1023 * int (length R))"
      using h by (simp only: of_int_less_iff)
    then show "\<bar>of_int (sum_list (map extract_value R)) :: rat\<bar>
        < 2 ^ 1023 * of_int (int (length R))"
      by simp
    show "is_float (PyInt (sum_list (map extract_value R))) \<longrightarrow> int (length R) < 2 ^ 53"
      by simp
  qed
  from c1 c2 c3 c4 show ?thesis by (intro conjI impI)
qed

theorem process_data_average_witness:
  "fst (process_data [[''value'' \<mapsto> PyInt 5], [''value'' \<mapsto> PyInt 7]]) =
     Inr [''total'' \<mapsto> PyInt 12, ''count'' \<mapsto> PyInt 2, ''average'' \<mapsto> PyFloat (Finite 6)]
   \<and> [[''value'' \<mapsto> PyInt 5], [''value'' \<mapsto> PyInt 7 :: pyval]] \<noteq> []
   \<and> py_sum (map (\<lambda>item. dict_get item ''value'' (PyInt 0))
        [[''value'' \<mapsto> PyInt 5], [''value'' \<mapsto> PyInt 7]]) = Inr (PyInt 12)
   \<and> number_of (PyInt 12) = Some 12
   \<and> \<bar>12 :: rat\<bar> < 2 ^ 1023 * of_int (int (length [[''value'' \<mapsto> PyInt 5], [''value'' \<mapsto> PyInt 7 :: pyval]]))
   \<and> \<not> is_float (PyInt 12)
   \<and> list_all int_valued [[''value'' \<mapsto> PyInt 5], [''value'' \<mapsto> PyInt 7]]
   \<and> \<bar>sum_list (map extract_value [[''value'' \<mapsto> PyInt 5], [''value'' \<mapsto> PyInt 7]])\<bar>
       < 2 ^ 1023 * int (length [[''value'' \<mapsto> PyInt 5], [''value'' \<mapsto> PyInt 7 :: pyval]])
   \<and> py_div (PyInt 12) (PyInt (int (length [[''value'' \<mapsto> PyInt 5], [''value'' \<mapsto> PyInt 7 :: pyval]])))
       = Inr (PyFloat (Finite 6))"
proof -
  have r: "fst (process_data [[''value'' \<mapsto> PyInt 5], [''value'' \<mapsto> PyInt 7]]) =
     Inr [''total'' \<mapsto> PyInt 12, ''count'' \<mapsto> PyInt 2, ''average'' \<mapsto> PyFloat (Finite 6)]"
    by (rule run_5_7)
  have ne: "[[''value'' \<mapsto> PyInt 5], [''value'' \<mapsto> PyInt 7 :: pyval]] \<noteq> []"
    by simp
  have sum: "py_sum (map (\<lambda>item. dict_get item ''value'' (PyInt 0))
        [[''value'' \<mapsto> PyInt 5], [''value'' \<mapsto> PyInt 7]]) = Inr (PyInt 12)"
    by (simp add: py_sum_def dict_get_def)
  have num: "number_of (PyInt 12) = Some 12"
    by simp
  have small: "\<bar>12 :: rat\<bar>
      < 2 ^ 1023 * of_int (int (length [[''value'' \<mapsto> PyInt 5], [''value'' \<mapsto> PyInt 7 :: pyval]]))"
    by simp
  have nf: "\<not> is_float (PyInt 12)"
    by simp
  have iv: "list_all int_valued [[''value'' \<mapsto> PyInt 5], [''value'' \<mapsto> PyInt 7]]"
    by (simp add: int_valued_def)
  have isum: "\<bar>sum_list (map extract_value [[''value'' \<mapsto> PyInt 5], [''value'' \<mapsto> PyInt 7]])\<bar>
       < 2 ^ 1023 * int (length [[''value'' \<mapsto> PyInt 5], [''value'' \<mapsto> PyInt 7 :: pyval]])"
    by (simp add: extract_value_def)
  from process_data_average
    [of "[[''value'' \<mapsto> PyInt 5], [''value'' \<mapsto> PyInt 7]]"
        "[''total'' \<mapsto> PyInt 12, ''count'' \<mapsto> PyInt 2, ''average'' \<mapsto> PyFloat (Finite 6)]"
        "PyInt 12" 12]
  have "fst (process_data [[''value'' \<mapsto> PyInt 5], [''value'' \<mapsto> PyInt 7]]) =
          Inr [''total'' \<mapsto> PyInt 12, ''count'' \<mapsto> PyInt 2, ''average'' \<mapsto> PyFloat (Finite 6)]
        \<and> [[''value'' \<mapsto> PyInt 5], [''value'' \<mapsto> PyInt 7 :: pyval]] \<noteq> [] \<longrightarrow>
        (\<exists>t a. [''total'' \<mapsto> PyInt 12, ''count'' \<mapsto> PyInt 2, ''average'' \<mapsto> PyFloat (Finite 6)]
                  ''total'' = Some t
            \<and> [''total'' \<mapsto> PyInt 12, ''count'' \<mapsto> PyInt 2, ''average'' \<mapsto> PyFloat (Finite 6)]
                  ''count'' = Some (PyInt (int (length [[''value'' \<mapsto> PyInt 5], [''value'' \<mapsto> PyInt 7 :: pyval]])))
            \<and> [''total'' \<mapsto> PyInt 12, ''count'' \<mapsto> PyInt 2, ''average'' \<mapsto> PyFloat (Finite 6)]
                  ''average'' = Some a
            \<and> py_div t (PyInt (int (length [[''value'' \<mapsto> PyInt 5], [''value'' \<mapsto> PyInt 7 :: pyval]])))
                = Inr a)"
    by (elim conjE)
  with r ne obtain t a
    where "[''total'' \<mapsto> PyInt 12, ''count'' \<mapsto> PyInt 2, ''average'' \<mapsto> PyFloat (Finite 6)]
              ''total'' = Some t"
      and "[''total'' \<mapsto> PyInt 12, ''count'' \<mapsto> PyInt 2, ''average'' \<mapsto> PyFloat (Finite 6)]
              ''average'' = Some a"
      and d: "py_div t (PyInt (int (length [[''value'' \<mapsto> PyInt 5], [''value'' \<mapsto> PyInt 7 :: pyval]])))
                = Inr a"
    by blast
  then have "t = PyInt 12" and "a = PyFloat (Finite 6)" by simp_all
  with d have q: "py_div (PyInt 12)
      (PyInt (int (length [[''value'' \<mapsto> PyInt 5], [''value'' \<mapsto> PyInt 7 :: pyval]])))
       = Inr (PyFloat (Finite 6))"
    by (simp only:)
  from r ne sum num small nf iv isum q show ?thesis by (intro conjI)
qed

text \<open>
  C4. On the empty list, \<open>process_data\<close> returns the dictionary with the three keys
  \<^verbatim>\<open>count\<close>, \<^verbatim>\<open>total\<close> and \<^verbatim>\<open>average\<close>, each \<open>0\<close>; so does \<open>get_summary\<close> on a new
  object.
\<close>

theorem process_data_empty:
  "fst (process_data []) =
     Inr [''count'' \<mapsto> PyInt 0, ''total'' \<mapsto> PyInt 0, ''average'' \<mapsto> PyInt 0]
   \<and> fst (get_summary DataProcessor_init) =
     Inr [''count'' \<mapsto> PyInt 0, ''total'' \<mapsto> PyInt 0, ''average'' \<mapsto> PyInt 0]
   \<and> dom [''count'' \<mapsto> PyInt 0, ''total'' \<mapsto> PyInt 0, ''average'' \<mapsto> PyInt 0] =
     {''count'', ''total'', ''average''}"
  by (auto simp add: process_data_result py_sum_def summary_key_order get_summary_def
      DataProcessor_init_def)

text \<open>
  C5. In every state of a \<open>DataProcessor\<close>, \<open>get_summary\<close> returns what \<open>process_data\<close>
  returns on the list held in \<open>data\<close> (the same summary, or the same exception) and leaves
  the object as it is; after any sequence of calls on a new object, it returns what
  \<open>process_data\<close> returns on the records added by these calls, in their order.
\<close>

theorem get_summary_refines_process_data:
  "get_summary self = (fst (process_data (data self)), self)
   \<and> fst (get_summary (exec cs DataProcessor_init)) = fst (process_data (added cs))"
  by (simp add: prod_eq_iff get_summary_result get_summary_frame data_exec
      DataProcessor_init_def)

text \<open>
  C6. On a new object, after \<^verbatim>\<open>add_item({'value': 3})\<close> and \<^verbatim>\<open>add_item({'value': 4})\<close>,
  \<open>get_summary\<close> returns count \<open>2\<close>, total \<open>7\<close> and average \<open>3.5\<close>.
\<close>

theorem summary_of_3_and_4:
  "fst (get_summary (snd (add_item [''value'' \<mapsto> PyInt 4]
         (snd (add_item [''value'' \<mapsto> PyInt 3] DataProcessor_init))))) =
     Inr [''count'' \<mapsto> PyInt 2, ''total'' \<mapsto> PyInt 7, ''average'' \<mapsto> PyFloat (Finite (7 / 2))]"
  by (simp add: get_summary_def add_item_def DataProcessor_init_def py_sum_def dict_get_def
      truediv_7_2)

text \<open>
  C7. A call of \<open>process_data\<close> on \<open>R\<close> ends in one way only: every run ends with the
  list \<open>R\<close> as it was and with the result, summary or exception, that the function
  \<open>process_data\<close> computes; and a second call, on the list as the first call left it,
  ends as the first did.
\<close>

theorem process_data_deterministic:
  assumes "process_data_run R out1" and "process_data_run (snd out1) out2"
  shows "out2 = out1 \<and> snd out1 = R \<and> out1 = process_data R"
proof -
  have f: "snd out1 = R" using assms(1) by (rule process_data_run_frame)
  with assms(2) have "process_data_run R out2" by simp
  with assms(1) have "out2 = out1" by (rule process_data_run_deterministic)
  moreover have "out1 = process_data R"
    using process_data_run_process_data assms(1) by (rule process_data_run_deterministic)
  ultimately show ?thesis using f by simp
qed

theorem process_data_deterministic_witness:
  "process_data_run [[''value'' \<mapsto> PyInt 5], [''value'' \<mapsto> PyInt 7]]
     (Inr [''total'' \<mapsto> PyInt 12, ''count'' \<mapsto> PyInt 2, ''average'' \<mapsto> PyFloat (Finite 6)],
      [[''value'' \<mapsto> PyInt 5], [''value'' \<mapsto> PyInt 7]])
   \<and> process_data [[''value'' \<mapsto> PyInt 5], [''value'' \<mapsto> PyInt 7]] =
     (Inr [''total'' \<mapsto> PyInt 12, ''count'' \<mapsto> PyInt 2, ''average'' \<mapsto> PyFloat (Finite 6)],
      [[''value'' \<mapsto> PyInt 5], [''value'' \<mapsto> PyInt 7]])"
proof -
  have loop: "sum_loop (PyInt 0)
      (map (\<lambda>item. dict_get item ''value'' (PyInt 0))
        [[''value'' \<mapsto> PyInt 5], [''value'' \<mapsto> PyInt 7]]) (Inr (PyInt 12))"
    by (auto simp: dict_get_def intro!: sum_loop.intros)
  have d: "py_div (PyInt 12) (PyInt 2) = Inr (PyFloat (Finite 6))"
    by (simp add: truediv_12_2)
  have h: "process_data_run [[''value'' \<mapsto> PyInt 5], [''value'' \<mapsto> PyInt 7]]
     (Inr [''total'' \<mapsto> PyInt 12, ''count'' \<mapsto> PyInt 2, ''average'' \<mapsto> PyFloat (Finite 6)],
      [[''value'' \<mapsto> PyInt 5], [''value'' \<mapsto> PyInt 7]])"
    by (rule run_returns [OF loop _ _ d]) simp_all
  then have h2: "process_data_run
     (snd (Inr [''total'' \<mapsto> PyInt 12, ''count'' \<mapsto> PyInt 2, ''average'' \<mapsto> PyFloat (Finite 6)],
      [[''value'' \<mapsto> PyInt 5], [''value'' \<mapsto> PyInt 7]]))
     (Inr [''total'' \<mapsto> PyInt 12, ''count'' \<mapsto> PyInt 2, ''average'' \<mapsto> PyFloat (Finite 6)],
      [[''value'' \<mapsto> PyInt 5], [''value'' \<mapsto> PyInt 7]])"
    by simp
  from process_data_deterministic [OF h h2] h show ?thesis by simp
qed

text \<open>
  C8. \<open>process_data\<close> leaves the list of records that it was given as it was, and
  \<open>get_summary\<close> leaves the object, hence the list in \<open>data\<close>, as it was.
\<close>

theorem no_side_effects:
  "snd (process_data R) = R \<and> snd (get_summary self) = self
   \<and> data (snd (get_summary self)) = data self"
  by (simp add: process_data_frame get_summary_frame)

text \<open>
  C9. \<open>add_item r\<close> returns no value and appends \<open>r\<close> at the end of \<open>data\<close>; after any
  sequence of calls, \<open>data\<close> is the list before the calls followed by the records added
  by the calls, in their order: nothing is removed or reordered.
\<close>

theorem data_append_only:
  "add_item r self = ((), self\<lparr>data := data self @ [r]\<rparr>)
   \<and> data (exec cs self) = data self @ added cs"
  by (simp add: add_item_def data_exec)

text \<open>
  C10. In exact arithmetic, that is when no record of \<open>R\<close> holds a \<^verbatim>\<open>float\<close> under
  \<^verbatim>\<open>value\<close>: if \<open>R'\<close> is a permutation of \<open>R\<close>, then \<open>process_data\<close> returns on \<open>R'\<close> what
  it returns on \<open>R\<close> (the same summary, or the same exception).
\<close>

theorem process_data_permutation:
  assumes "mset R' = mset R" and "list_all float_free R"
  shows "fst (process_data R') = fst (process_data R)"
proof -
  have s: "set R' = set R"
    using assms(1) by (rule mset_eq_setD)
  have l: "length R' = length R"
    using assms(1) by (rule mset_eq_length)
  have "mset (map extract_value R') = mset (map extract_value R)"
    using assms(1) by simp
  then have t: "sum_list (map extract_value R') = sum_list (map extract_value R)"
    by (metis sum_mset_sum_list)
  have e: "R' = [] \<longleftrightarrow> R = []"
    using l by auto
  have f: "list_all float_free R'"
    using assms(2) s by (simp add: list_all_iff)
  have i: "list_all int_valued R' \<longleftrightarrow> list_all int_valued R"
    using s by (simp add: list_all_iff)
  show ?thesis
    by (simp add: process_data_result py_sum_values [OF f] py_sum_values [OF assms(2)]
        i l t e)
qed

theorem process_data_permutation_witness:
  "mset [Map.empty, [''value'' \<mapsto> PyInt 20], [''value'' \<mapsto> PyInt 10]] =
     mset [[''value'' \<mapsto> PyInt 10], [''value'' \<mapsto> PyInt 20], Map.empty]
   \<and> list_all float_free [[''value'' \<mapsto> PyInt 10], [''value'' \<mapsto> PyInt 20], Map.empty]
   \<and> fst (process_data [Map.empty, [''value'' \<mapsto> PyInt 20], [''value'' \<mapsto> PyInt 10]]) =
     Inr [''total'' \<mapsto> PyInt 30, ''count'' \<mapsto> PyInt 3, ''average'' \<mapsto> PyFloat (Finite 10)]"
proof -
  have p: "mset [Map.empty, [''value'' \<mapsto> PyInt 20], [''value'' \<mapsto> PyInt 10]] =
     mset [[''value'' \<mapsto> PyInt 10], [''value'' \<mapsto> PyInt 20], Map.empty :: pyrecord]"
    by (simp add: add_mset_commute)
  have f: "list_all float_free [[''value'' \<mapsto> PyInt 10], [''value'' \<mapsto> PyInt 20], Map.empty]"
    by (simp add: float_free_def)
  from process_data_permutation [OF p f] run_10_20_none
  have "fst (process_data [Map.empty, [''value'' \<mapsto> PyInt 20], [''value'' \<mapsto> PyInt 10]]) =
     Inr [''total'' \<mapsto> PyInt 30, ''count'' \<mapsto> PyInt 3, ''average'' \<mapsto> PyFloat (Finite 10)]"
    by (simp only:)
  with p f show ?thesis by (intro conjI)
qed

end
